theory Spec2Isabelle
  imports Main "HOL-Library.Signed_Division"
begin

section \<open>Catch the Block: the game loop of main.cpp\<close>

text \<open>
  The program is one function, \<^verbatim>\<open>main\<close>: start-up, a frame loop, clean-up. The
  embedding covers the variable set-up before the loop (lines 152-205) and the
  loop itself (lines 212-333). Each frame is a function from the state of the
  local variables to their next state; what the environment supplies in a frame
  (the queued events, the keyboard snapshot, the values of \<^verbatim>\<open>rand()\<close>) is an
  argument. Rendering and \<^verbatim>\<open>SDL_Delay\<close> read the state and do not change it, so
  they are left out; the start-up failures return before the loop is entered.
\<close>

subsection \<open>Configuration constants (lines 34-41)\<close>

definition SCREEN_WIDTH :: int where [simp]: "SCREEN_WIDTH = 800"
definition SCREEN_HEIGHT :: int where [simp]: "SCREEN_HEIGHT = 600"
definition PADDLE_WIDTH :: int where [simp]: "PADDLE_WIDTH = 100"
definition PADDLE_HEIGHT :: int where [simp]: "PADDLE_HEIGHT = 20"
definition BLOCK_SIZE :: int where [simp]: "BLOCK_SIZE = 30"
definition PADDLE_SPEED :: int where [simp]: "PADDLE_SPEED = 10"
definition BLOCK_SPEED :: int where [simp]: "BLOCK_SPEED = 5"
definition MAX_MISTAKES :: int where [simp]: "MAX_MISTAKES = 5"

subsection \<open>Machine integers\<close>

text \<open>
  Every integer of the program is a 32-bit \<^verbatim>\<open>int\<close>. Values are modelled as
  \<^typ>\<open>int\<close>, and each addition and subtraction that \<^verbatim>\<open>main\<close> performs at run time
  goes through \<open>s32\<close>, the two's-complement wrap-around to 32 bits (C leaves
  signed overflow undefined; wrapping is what the usual compilers produce).
  Expressions over the constants alone are folded when the program is compiled
  and stay unwrapped. Division by two truncates towards zero (\<open>sdiv\<close>).
\<close>

definition s32 :: "int \<Rightarrow> int" where
  "s32 i = (i + 2 ^ 31) mod 2 ^ 32 - 2 ^ 31"

subsection \<open>Data (lines 45-64)\<close>

datatype GameState = MENU | PLAYING | GAME_OVER

record SDL_Rect =
  x :: int
  y :: int
  w :: int
  h :: int

text \<open>An \<^verbatim>\<open>SDL_Point\<close> is its pair of coordinates.\<close>

type_synonym SDL_Point = "int \<times> int"

text \<open>The lines the loop writes to standard output.\<close>

datatype console_line = Caught_it | Missed int | GAME_OVER_line

text \<open>
  The local variables of \<^verbatim>\<open>main\<close> that the loop reads and writes. \<open>player\<close>
  and \<open>block\<close> are \<^verbatim>\<open>player.rect\<close> and \<^verbatim>\<open>block.rect\<close> (the two structs have no
  other field). \<open>music\<close> is whether the music is playing (\<^verbatim>\<open>Mix_PlayMusic\<close>
  sets it, \<^verbatim>\<open>Mix_HaltMusic\<close> clears it), \<open>rand_calls\<close> counts the calls of
  \<^verbatim>\<open>rand()\<close> made so far, and \<open>console\<close> is the output written so far.
\<close>

record game =
  currentState :: GameState
  mistakes :: int
  player :: SDL_Rect
  block :: SDL_Rect
  isRunning :: bool
  music :: bool
  rand_calls :: nat
  console :: "console_line list"

subsection \<open>The SDL geometry tests\<close>

text \<open>
  Modelled from the spec: \<^verbatim>\<open>SDL_RectEmpty\<close>, \<^verbatim>\<open>SDL_HasIntersection\<close> and
  \<^verbatim>\<open>SDL_PointInRect\<close> belong to the SDL2 library, whose implementation is not
  under src/. The spec describes the intersection test as the standard
  axis-aligned overlap test with strict inequalities (section 8). The
  definitions follow the steps of the library routine that computes it: a
  rectangle of no width or no height intersects nothing, and on each axis the
  common interval, from the larger of the two minima to the smaller of the two
  maxima, must be non-empty. A point is in a rectangle when it is at or after
  the left and top edges and before the right and bottom edges. The
  coordinates are not wrapped here: those of the game stay far below \<open>2 ^ 31\<close>.
\<close>

definition SDL_RectEmpty :: "SDL_Rect \<Rightarrow> bool" where
  "SDL_RectEmpty r = (w r \<le> 0 \<or> h r \<le> 0)"

definition SDL_HasIntersection :: "SDL_Rect \<Rightarrow> SDL_Rect \<Rightarrow> bool" where
  "SDL_HasIntersection A B =
     (if SDL_RectEmpty A \<or> SDL_RectEmpty B then False
      else
        let Amin = x A; Amax = Amin + w A;
            Bmin = x B; Bmax = Bmin + w B;
            Amin = (if Bmin > Amin then Bmin else Amin);
            Amax = (if Bmax < Amax then Bmax else Amax)
        in if Amax \<le> Amin then False
           else
             let Amin = y A; Amax = Amin + h A;
                 Bmin = y B; Bmax = Bmin + h B;
                 Amin = (if Bmin > Amin then Bmin else Amin);
                 Amax = (if Bmax < Amax then Bmax else Amax)
             in if Amax \<le> Amin then False else True)"

definition SDL_PointInRect :: "SDL_Point \<Rightarrow> SDL_Rect \<Rightarrow> bool" where
  "SDL_PointInRect p r =
     (fst p \<ge> x r \<and> fst p < x r + w r \<and> snd p \<ge> y r \<and> snd p < y r + h r)"

subsection \<open>Set-up before the loop (lines 152-209)\<close>

definition playButtonRect :: SDL_Rect where
  "playButtonRect =
     \<lparr>x = (SCREEN_WIDTH - 250) sdiv 2, y = (SCREEN_HEIGHT - 100) sdiv 2, w = 250, h = 100\<rparr>"

text \<open>
  \<open>rnd k\<close> is the value the \<open>k\<close>-th call of \<^verbatim>\<open>rand()\<close> returns; it is a
  natural number because \<^verbatim>\<open>rand()\<close> returns a value between 0 and
  \<^verbatim>\<open>RAND_MAX\<close>. On such a value C's \<^verbatim>\<open>%\<close> is \<open>mod\<close>.
\<close>

definition init_game :: "(nat \<Rightarrow> nat) \<Rightarrow> game" where
  "init_game rnd =
     \<lparr>currentState = MENU,
      mistakes = 0,
      player = \<lparr>x = (SCREEN_WIDTH - PADDLE_WIDTH) sdiv 2,
                y = SCREEN_HEIGHT - PADDLE_HEIGHT - 10,
                w = PADDLE_WIDTH, h = PADDLE_HEIGHT\<rparr>,
      block = \<lparr>x = int (rnd 0) mod (SCREEN_WIDTH - BLOCK_SIZE), y = 0,
               w = BLOCK_SIZE, h = BLOCK_SIZE\<rparr>,
      isRunning = True,
      music = False,
      rand_calls = 1,
      console = []\<rparr>"

subsection \<open>Event handling (lines 215-252)\<close>

datatype SDL_Keycode = SDLK_ESCAPE | SDLK_LEFT | SDLK_RIGHT | SDLK_other nat

text \<open>
  The events by their \<^verbatim>\<open>type\<close>. A key-down event carries its key symbol and a
  mouse-motion event its \<^verbatim>\<open>motion.x\<close>. The handler of a mouse-button-down event
  does not read the event's own coordinates: it calls \<^verbatim>\<open>SDL_GetMouseState\<close>, so
  the event carries the \<open>mouseX\<close> and \<open>mouseY\<close> that call returns.
\<close>

datatype SDL_Event =
    SDL_QUIT
  | SDL_KEYDOWN SDL_Keycode
  | SDL_MOUSEBUTTONDOWN int int
  | SDL_MOUSEMOTION int
  | SDL_other_event

fun handle_event :: "SDL_Event \<Rightarrow> game \<Rightarrow> game" where
  "handle_event SDL_QUIT g = g\<lparr>isRunning := False\<rparr>"
| "handle_event (SDL_KEYDOWN keysym) g =
     (if keysym = SDLK_ESCAPE then g\<lparr>isRunning := False\<rparr> else g)"
| "handle_event (SDL_MOUSEBUTTONDOWN mouseX mouseY) g =
     (if currentState g = MENU then
        (if SDL_PointInRect (mouseX, mouseY) playButtonRect
         then g\<lparr>currentState := PLAYING, music := True\<rparr>
         else g)
      else g)"
| "handle_event (SDL_MOUSEMOTION motion_x) g =
     (if currentState g = PLAYING
      then g\<lparr>player := (player g)\<lparr>x := s32 (motion_x - w (player g) sdiv 2)\<rparr>\<rparr>
      else g)"
| "handle_event SDL_other_event g = g"

text \<open>The inner loop polls until the queue is empty: every queued event is handled, in order.\<close>

definition poll_events :: "SDL_Event list \<Rightarrow> game \<Rightarrow> game" where
  "poll_events evs g = fold handle_event evs g"

subsection \<open>Keyboard input (lines 255-266)\<close>

definition keyboard_input :: "bool \<Rightarrow> bool \<Rightarrow> game \<Rightarrow> game" where
  "keyboard_input left right g =
     (if currentState g = PLAYING then
        let g1 = (if left
                  then g\<lparr>player := (player g)\<lparr>x := s32 (x (player g) - PADDLE_SPEED)\<rparr>\<rparr>
                  else g);
            g2 = (if right
                  then g1\<lparr>player := (player g1)\<lparr>x := s32 (x (player g1) + PADDLE_SPEED)\<rparr>\<rparr>
                  else g1)
        in g2
      else g)"

subsection \<open>Game logic (lines 269-307)\<close>

definition clamp_paddle :: "game \<Rightarrow> game" where
  "clamp_paddle g =
     (let g1 = (if x (player g) < 0 then g\<lparr>player := (player g)\<lparr>x := 0\<rparr>\<rparr> else g);
          g2 = (if x (player g1) > s32 (SCREEN_WIDTH - w (player g1))
                then g1\<lparr>player := (player g1)\<lparr>x := s32 (SCREEN_WIDTH - w (player g1))\<rparr>\<rparr>
                else g1)
      in g2)"

definition move_block :: "game \<Rightarrow> game" where
  "move_block g = g\<lparr>block := (block g)\<lparr>y := s32 (y (block g) + BLOCK_SPEED)\<rparr>\<rparr>"

definition collision_check :: "(nat \<Rightarrow> nat) \<Rightarrow> game \<Rightarrow> game" where
  "collision_check rnd g =
     (if SDL_HasIntersection (player g) (block g)
      then g\<lparr>console := console g @ [Caught_it],
             block := (block g)\<lparr>y := 0,
                                x := int (rnd (rand_calls g)) mod (SCREEN_WIDTH - BLOCK_SIZE)\<rparr>,
             rand_calls := Suc (rand_calls g)\<rparr>
      else g)"

definition miss_check :: "(nat \<Rightarrow> nat) \<Rightarrow> game \<Rightarrow> game" where
  "miss_check rnd g =
     (if y (block g) > SCREEN_HEIGHT then
        let g1 = g\<lparr>mistakes := s32 (mistakes g + 1)\<rparr>;
            g2 = g1\<lparr>console := console g1 @ [Missed (mistakes g1)],
                    block := (block g1)\<lparr>y := 0,
                                        x := int (rnd (rand_calls g1)) mod (SCREEN_WIDTH - BLOCK_SIZE)\<rparr>,
                    rand_calls := Suc (rand_calls g1)\<rparr>
        in if mistakes g2 \<ge> MAX_MISTAKES
           then g2\<lparr>console := console g2 @ [GAME_OVER_line],
                   currentState := GAME_OVER, music := False\<rparr>
           else g2
      else g)"

definition game_logic :: "(nat \<Rightarrow> nat) \<Rightarrow> game \<Rightarrow> game" where
  "game_logic rnd g =
     (if currentState g = PLAYING
      then miss_check rnd (collision_check rnd (move_block (clamp_paddle g)))
      else g)"

subsection \<open>One frame and the loop (lines 212-333)\<close>

text \<open>What the environment supplies in one frame.\<close>

record frame_input =
  events :: "SDL_Event list"
  key_left :: bool
  key_right :: bool

text \<open>The state when the game logic starts: events handled, keyboard applied.\<close>

definition input_phase :: "frame_input \<Rightarrow> game \<Rightarrow> game" where
  "input_phase inp g = keyboard_input (key_left inp) (key_right inp) (poll_events (events inp) g)"

definition frame :: "(nat \<Rightarrow> nat) \<Rightarrow> frame_input \<Rightarrow> game \<Rightarrow> game" where
  "frame rnd inp g = game_logic rnd (input_phase inp g)"

text \<open>
  \<^verbatim>\<open>while (isRunning)\<close>, run on the inputs of finitely many frames: the state at
  the loop head once these inputs are used up, or the state in which the loop
  was left before that.
\<close>

fun run :: "(nat \<Rightarrow> nat) \<Rightarrow> frame_input list \<Rightarrow> game \<Rightarrow> game" where
  "run rnd [] g = g"
| "run rnd (inp # inps) g = (if isRunning g then run rnd inps (frame rnd inp g) else g)"

text \<open>The two conditions the game logic tests, on the state at its start.\<close>

definition caught :: "game \<Rightarrow> bool" where
  "caught g =
     SDL_HasIntersection (player (move_block (clamp_paddle g))) (block (move_block (clamp_paddle g)))"

definition missed :: "(nat \<Rightarrow> nat) \<Rightarrow> game \<Rightarrow> bool" where
  "missed rnd g = (y (block (collision_check rnd (move_block (clamp_paddle g)))) > SCREEN_HEIGHT)"

subsection \<open>Invariants of the loop\<close>

text \<open>
  What holds of the variables whenever the game logic is about to start: the
  sizes of the two rectangles, the block on its grid and inside the screen, the
  counter within its bounds and tied to the state.
\<close>

definition shape_inv :: "game \<Rightarrow> bool" where
  "shape_inv g =
     (w (player g) = PADDLE_WIDTH \<and> h (player g) = PADDLE_HEIGHT \<and>
      y (player g) = SCREEN_HEIGHT - PADDLE_HEIGHT - 10 \<and>
      w (block g) = BLOCK_SIZE \<and> h (block g) = BLOCK_SIZE \<and>
      0 \<le> x (block g) \<and> x (block g) < SCREEN_WIDTH - BLOCK_SIZE \<and>
      0 \<le> y (block g) \<and> y (block g) \<le> SCREEN_HEIGHT \<and> y (block g) mod BLOCK_SPEED = 0 \<and>
      0 \<le> mistakes g \<and> mistakes g \<le> MAX_MISTAKES \<and>
      (mistakes g = MAX_MISTAKES) = (currentState g = GAME_OVER) \<and>
      (currentState g = MENU \<longrightarrow> mistakes g = 0))"

text \<open>At the loop head the paddle is inside the screen as well.\<close>

definition loop_inv :: "game \<Rightarrow> bool" where
  "loop_inv g =
     (shape_inv g \<and> 0 \<le> x (player g) \<and> x (player g) \<le> SCREEN_WIDTH - PADDLE_WIDTH)"

text \<open>Inside the game logic, between the move of the block and the miss check.\<close>

definition mid_inv :: "game \<Rightarrow> bool" where
  "mid_inv g =
     (w (player g) = PADDLE_WIDTH \<and> h (player g) = PADDLE_HEIGHT \<and>
      y (player g) = SCREEN_HEIGHT - PADDLE_HEIGHT - 10 \<and>
      0 \<le> x (player g) \<and> x (player g) \<le> SCREEN_WIDTH - PADDLE_WIDTH \<and>
      w (block g) = BLOCK_SIZE \<and> h (block g) = BLOCK_SIZE \<and>
      0 \<le> x (block g) \<and> x (block g) < SCREEN_WIDTH - BLOCK_SIZE \<and>
      0 \<le> y (block g) \<and> y (block g) \<le> SCREEN_HEIGHT + BLOCK_SPEED \<and>
      y (block g) mod BLOCK_SPEED = 0 \<and>
      0 \<le> mistakes g \<and> mistakes g < MAX_MISTAKES)"

subsection \<open>Inputs and states of the worked scenarios\<close>

text \<open>A frame with no event and no key held, and a click in the middle of the play button.\<close>

definition idle :: frame_input where
  "idle = \<lparr>events = [], key_left = False, key_right = False\<rparr>"

definition click :: frame_input where
  "click = \<lparr>events = [SDL_MOUSEBUTTONDOWN 400 300], key_left = False, key_right = False\<rparr>"

definition mouse_to :: "int \<Rightarrow> frame_input" where
  "mouse_to motion_x =
     \<lparr>events = [SDL_MOUSEMOTION motion_x], key_left = False, key_right = False\<rparr>"

text \<open>The pointer at the least 32-bit position, with the left arrow held.\<close>

definition far_left :: frame_input where
  "far_left =
     \<lparr>events = [SDL_MOUSEMOTION (- 2147483648)], key_left = True, key_right = False\<rparr>"

text \<open>A close request followed, in the same queue, by a click on the play button.\<close>

definition quit_now :: frame_input where
  "quit_now =
     \<lparr>events = [SDL_QUIT, SDL_MOUSEBUTTONDOWN 400 300], key_left = False, key_right = False\<rparr>"

definition escape_now :: frame_input where
  "escape_now = \<lparr>events = [SDL_KEYDOWN SDLK_ESCAPE], key_left = False, key_right = False\<rparr>"

text \<open>A generator whose first value puts the block at 380 and every later one at 230.\<close>

definition rnd_380 :: "nat \<Rightarrow> nat" where
  "rnd_380 k = (if k = 0 then 380 else 1000)"

text \<open>
  The game started, the paddle moved out of the block's way, and the block
  fallen to 560: the frame that follows brings it to 565.
\<close>

definition before_catch :: game where
  "before_catch = run rnd_380 (click # mouse_to 50 # replicate 110 idle) (init_game rnd_380)"

text \<open>The game started and the block, at the left edge, fallen to 600.\<close>

definition before_miss :: game where
  "before_miss = run (\<lambda>_. 0) (click # replicate 119 idle) (init_game (\<lambda>_. 0))"

text \<open>Four blocks missed and the fifth fallen to 600; one frame later, the game over.\<close>

definition last_chance :: game where
  "last_chance = run (\<lambda>_. 0) (click # replicate 603 idle) (init_game (\<lambda>_. 0))"

definition game_lost :: game where
  "game_lost = run (\<lambda>_. 0) (click # replicate 604 idle) (init_game (\<lambda>_. 0))"

section \<open>Properties of the phases of a frame\<close>

subsection \<open>Arithmetic in range does not wrap\<close>

lemma s32_id: "- (2 ^ 31) \<le> i \<Longrightarrow> i < 2 ^ 31 \<Longrightarrow> s32 i = i"
  by (simp add: s32_def)

subsection \<open>Event handling\<close>

lemma handle_event_shape: "shape_inv g \<Longrightarrow> shape_inv (handle_event e g)"
  by (cases e) (auto simp: shape_inv_def)

lemma handle_event_playing:
  "currentState g = PLAYING \<Longrightarrow> currentState (handle_event e g) = PLAYING"
  by (cases e) auto

lemma handle_event_over:
  "currentState g = GAME_OVER \<Longrightarrow> currentState (handle_event e g) = GAME_OVER"
  by (cases e) auto

lemma handle_event_player: "currentState g \<noteq> PLAYING \<Longrightarrow> player (handle_event e g) = player g"
  by (cases e) auto

lemma handle_event_keeps:
  "mistakes (handle_event e g) = mistakes g \<and> block (handle_event e g) = block g"
  by (cases e) auto

lemma handle_event_stopped: "\<not> isRunning g \<Longrightarrow> \<not> isRunning (handle_event e g)"
  by (cases e) auto

lemma poll_events_Cons: "poll_events (e # evs) g = poll_events evs (handle_event e g)"
  by (simp add: poll_events_def)

lemma poll_events_shape: "shape_inv g \<Longrightarrow> shape_inv (poll_events evs g)"
  unfolding poll_events_def by (induction evs arbitrary: g) (simp_all add: handle_event_shape)

lemma poll_events_playing:
  "currentState g = PLAYING \<Longrightarrow> currentState (poll_events evs g) = PLAYING"
  unfolding poll_events_def by (induction evs arbitrary: g) (simp_all add: handle_event_playing)

lemma poll_events_over:
  "currentState g = GAME_OVER \<Longrightarrow> currentState (poll_events evs g) = GAME_OVER"
  unfolding poll_events_def by (induction evs arbitrary: g) (simp_all add: handle_event_over)

lemma poll_events_keeps:
  "mistakes (poll_events evs g) = mistakes g \<and> block (poll_events evs g) = block g"
  unfolding poll_events_def by (induction evs arbitrary: g) (simp_all add: handle_event_keeps)

lemma poll_events_stopped: "\<not> isRunning g \<Longrightarrow> \<not> isRunning (poll_events evs g)"
  unfolding poll_events_def by (induction evs arbitrary: g) (simp_all add: handle_event_stopped)

text \<open>The paddle moves during event handling only once the game is being played.\<close>

lemma poll_events_player:
  "currentState (poll_events evs g) \<noteq> PLAYING \<Longrightarrow> player (poll_events evs g) = player g"
proof (induction evs arbitrary: g)
  case Nil
  then show ?case by (simp add: poll_events_def)
next
  case (Cons e evs)
  from Cons.prems have "currentState (handle_event e g) \<noteq> PLAYING"
    using poll_events_playing [of "handle_event e g" evs] by (auto simp: poll_events_Cons)
  then have "currentState g \<noteq> PLAYING"
    using handle_event_playing by blast
  then have "player (handle_event e g) = player g"
    by (rule handle_event_player)
  moreover have "player (poll_events evs (handle_event e g)) = player (handle_event e g)"
    using Cons.IH Cons.prems by (simp add: poll_events_Cons)
  ultimately show ?case by (simp add: poll_events_Cons)
qed

text \<open>A close request or an Escape anywhere in the queue clears the flag, and nothing sets it again.\<close>

lemma poll_events_quit:
  "SDL_QUIT \<in> set evs \<or> SDL_KEYDOWN SDLK_ESCAPE \<in> set evs \<Longrightarrow>
   \<not> isRunning (poll_events evs g)"
proof (induction evs arbitrary: g)
  case Nil
  then show ?case by simp
next
  case (Cons e evs)
  show ?case
  proof (cases "e = SDL_QUIT \<or> e = SDL_KEYDOWN SDLK_ESCAPE")
    case True
    then have "\<not> isRunning (handle_event e g)" by auto
    then show ?thesis using poll_events_stopped by (simp add: poll_events_Cons)
  next
    case False
    with Cons.prems have "SDL_QUIT \<in> set evs \<or> SDL_KEYDOWN SDLK_ESCAPE \<in> set evs" by auto
    then show ?thesis using Cons.IH by (simp add: poll_events_Cons)
  qed
qed

subsection \<open>Keyboard and the whole input phase\<close>

lemma keyboard_input_shape: "shape_inv g \<Longrightarrow> shape_inv (keyboard_input l r g)"
  by (auto simp: shape_inv_def keyboard_input_def Let_def)

lemma keyboard_input_state: "currentState (keyboard_input l r g) = currentState g"
  by (simp add: keyboard_input_def Let_def)

lemma keyboard_input_idle: "currentState g \<noteq> PLAYING \<Longrightarrow> keyboard_input l r g = g"
  by (simp add: keyboard_input_def)

lemma keyboard_input_isRunning: "isRunning (keyboard_input l r g) = isRunning g"
  by (simp add: keyboard_input_def Let_def)

lemma input_phase_shape: "shape_inv g \<Longrightarrow> shape_inv (input_phase inp g)"
  by (simp add: input_phase_def keyboard_input_shape poll_events_shape)

lemma input_phase_player:
  "currentState (input_phase inp g) \<noteq> PLAYING \<Longrightarrow> player (input_phase inp g) = player g"
  by (simp add: input_phase_def keyboard_input_state keyboard_input_idle poll_events_player)

lemma input_phase_keeps:
  "mistakes (input_phase inp g) = mistakes g \<and> block (input_phase inp g) = block g"
  by (simp add: input_phase_def keyboard_input_def Let_def poll_events_keeps)

lemma input_phase_playing:
  "currentState g = PLAYING \<Longrightarrow> currentState (input_phase inp g) = PLAYING"
  by (simp add: input_phase_def keyboard_input_state poll_events_playing)

lemma input_phase_over:
  "currentState g = GAME_OVER \<Longrightarrow> currentState (input_phase inp g) = GAME_OVER"
  by (simp add: input_phase_def keyboard_input_state poll_events_over)

subsection \<open>Game logic\<close>

lemma clamp_paddle_x:
  "w (player g) = PADDLE_WIDTH \<Longrightarrow>
   0 \<le> x (player (clamp_paddle g)) \<and> x (player (clamp_paddle g)) \<le> SCREEN_WIDTH - PADDLE_WIDTH"
  by (simp add: clamp_paddle_def Let_def s32_id)

lemma clamp_paddle_shape: "shape_inv g \<Longrightarrow> shape_inv (clamp_paddle g)"
  by (simp add: clamp_paddle_def Let_def shape_inv_def)

lemma game_logic_idle: "currentState g \<noteq> PLAYING \<Longrightarrow> game_logic rnd g = g"
  by (simp add: game_logic_def)

lemma game_logic_isRunning: "isRunning (game_logic rnd g) = isRunning g"
  by (simp add: game_logic_def miss_check_def collision_check_def move_block_def
      clamp_paddle_def Let_def)

lemma game_logic_not_menu:
  "currentState g \<noteq> MENU \<Longrightarrow> currentState (game_logic rnd g) \<noteq> MENU"
  by (simp add: game_logic_def miss_check_def collision_check_def move_block_def
      clamp_paddle_def Let_def)

lemma caught_resets:
  "caught g \<Longrightarrow> y (block (collision_check rnd (move_block (clamp_paddle g)))) = 0"
  by (simp add: caught_def collision_check_def)

lemma not_caught_keeps:
  "\<not> caught g \<Longrightarrow>
   collision_check rnd (move_block (clamp_paddle g)) = move_block (clamp_paddle g)"
  by (simp add: caught_def collision_check_def)

lemma game_logic_mistakes:
  "currentState g = PLAYING \<Longrightarrow>
   mistakes (game_logic rnd g) = (if missed rnd g then s32 (mistakes g + 1) else mistakes g)"
  by (simp add: game_logic_def missed_def miss_check_def Let_def)
     (simp add: collision_check_def move_block_def clamp_paddle_def Let_def)

lemma game_logic_over_music:
  "currentState g = PLAYING \<Longrightarrow> currentState (game_logic rnd g) = GAME_OVER \<Longrightarrow>
   \<not> music (game_logic rnd g)"
  by (simp add: game_logic_def miss_check_def Let_def split: if_splits)
     (simp_all add: collision_check_def move_block_def clamp_paddle_def Let_def split: if_splits)

text \<open>One pass of the game logic, from any state the input phase can leave.\<close>

lemma game_logic_inv:
  assumes "shape_inv g" "currentState g = PLAYING"
  shows "loop_inv (game_logic rnd g)"
proof -
  let ?c = "clamp_paddle g"
  let ?m = "move_block ?c"
  let ?k = "collision_check rnd ?m"
  have c: "shape_inv ?c" "0 \<le> x (player ?c)" "x (player ?c) \<le> SCREEN_WIDTH - PADDLE_WIDTH"
    "currentState ?c = PLAYING"
    using assms clamp_paddle_shape [of g] clamp_paddle_x [of g]
    by (simp_all add: shape_inv_def) (simp_all add: clamp_paddle_def Let_def)
  have m: "mid_inv ?m" "currentState ?m = PLAYING"
    using c by (simp_all add: mid_inv_def shape_inv_def move_block_def s32_id)
  have k: "mid_inv ?k" "currentState ?k = PLAYING"
    using m by (simp_all add: mid_inv_def collision_check_def)
  have "loop_inv (miss_check rnd ?k)"
    using k by (auto simp: mid_inv_def loop_inv_def shape_inv_def miss_check_def Let_def s32_id)
  then show ?thesis using assms by (simp add: game_logic_def)
qed

subsection \<open>Frames and the loop\<close>

lemma init_inv: "loop_inv (init_game rnd)"
  by (simp add: loop_inv_def shape_inv_def init_game_def)

lemma frame_inv: "loop_inv g \<Longrightarrow> loop_inv (frame rnd inp g)"
proof (cases "currentState (input_phase inp g) = PLAYING")
  case True
  assume "loop_inv g"
  then have "shape_inv (input_phase inp g)" by (simp add: loop_inv_def input_phase_shape)
  with True show ?thesis by (simp add: frame_def game_logic_inv)
next
  case False
  assume "loop_inv g"
  with False show ?thesis
    using input_phase_shape [of g inp] input_phase_player [of inp g]
    by (simp add: frame_def game_logic_idle loop_inv_def)
qed

lemma run_inv: "loop_inv g \<Longrightarrow> loop_inv (run rnd inps g)"
  by (induction inps arbitrary: g) (simp_all add: frame_inv)

lemma reach_inv: "loop_inv (run rnd inps (init_game rnd))"
  by (simp add: run_inv init_inv)

lemma frame_isRunning: "isRunning (frame rnd inp g) = isRunning (poll_events (events inp) g)"
  by (simp add: frame_def input_phase_def game_logic_isRunning keyboard_input_isRunning)

lemma run_stopped: "\<not> isRunning g \<Longrightarrow> run rnd inps g = g"
  by (cases inps) simp_all

lemma frame_idle_block:
  "currentState (input_phase inp g) \<noteq> PLAYING \<Longrightarrow> block (frame rnd inp g) = block g"
  by (simp add: frame_def game_logic_idle input_phase_keeps)

lemma frame_mistakes:
  assumes "loop_inv g"
  shows "mistakes (frame rnd inp g) =
     (if currentState (input_phase inp g) = PLAYING \<and> missed rnd (input_phase inp g)
      then mistakes g + 1 else mistakes g)"
proof (cases "currentState (input_phase inp g) = PLAYING")
  case True
  have "0 \<le> mistakes g" "mistakes g \<le> 5"
    using assms by (simp_all add: loop_inv_def shape_inv_def)
  then have "s32 (mistakes g + 1) = mistakes g + 1"
    by (simp add: s32_id)
  with True show ?thesis
    by (simp add: frame_def game_logic_mistakes input_phase_keeps)
next
  case False
  then show ?thesis
    by (simp add: frame_def game_logic_idle input_phase_keeps)
qed

section \<open>The claims\<close>

subsection \<open>Collision test\<close>

text \<open>
  C1: on rectangles of positive width and height, as the paddle (100 by 20)
  and the block (30 by 30) are in every state of the game, the collision test
  holds exactly when \<open>x1 < x2 + w2\<close>, \<open>x2 < x1 + w1\<close>, \<open>y1 < y2 + h2\<close> and
  \<open>y2 < y1 + h1\<close>, and its result does not depend on the order of its two
  arguments.
\<close>

theorem SDL_HasIntersection_overlap:
  "0 < w r1 \<Longrightarrow> 0 < h r1 \<Longrightarrow> 0 < w r2 \<Longrightarrow> 0 < h r2 \<Longrightarrow>
   (SDL_HasIntersection r1 r2 \<longleftrightarrow>
      x r1 < x r2 + w r2 \<and> x r2 < x r1 + w r1 \<and> y r1 < y r2 + h r2 \<and> y r2 < y r1 + h r1) \<and>
   SDL_HasIntersection r1 r2 = SDL_HasIntersection r2 r1"
  by (auto simp: SDL_HasIntersection_def SDL_RectEmpty_def Let_def)

text \<open>The paddle at (350, 570) and the block at (380, 565) overlap, in either order.\<close>

theorem SDL_HasIntersection_overlap_witness:
  "SDL_HasIntersection \<lparr>x = 350, y = 570, w = 100, h = 20\<rparr> \<lparr>x = 380, y = 565, w = 30, h = 30\<rparr> \<and>
   SDL_HasIntersection \<lparr>x = 380, y = 565, w = 30, h = 30\<rparr> \<lparr>x = 350, y = 570, w = 100, h = 20\<rparr>"
  using SDL_HasIntersection_overlap
    [where ?r1.0 = "\<lparr>x = 350, y = 570, w = 100, h = 20\<rparr>"
       and ?r2.0 = "\<lparr>x = 380, y = 565, w = 30, h = 30\<rparr>"]
  by auto

subsection \<open>Mistake counter\<close>

text \<open>
  C2: at every loop head reached from the initial state the mistake counter
  is between 0 and \<open>MAX_MISTAKES\<close>. A frame adds one to it exactly when the
  game logic runs (the state is \<open>PLAYING\<close>) and the block is missed, and
  leaves it alone otherwise, so it never decreases and is never reset. The
  frame in which it becomes \<open>MAX_MISTAKES\<close> starts in \<open>PLAYING\<close> and ends in
  \<open>GAME_OVER\<close> with the music halted. In particular the miss check, entered
  while \<open>PLAYING\<close> with four mistakes and the block below the screen, makes
  the counter five and the state \<open>GAME_OVER\<close>.
\<close>

theorem mistakes_counter:
  fixes rnd inps inp g
  defines "G \<equiv> run rnd inps (init_game rnd)"
  shows
  "0 \<le> mistakes G \<and> mistakes G \<le> MAX_MISTAKES \<and>
   mistakes (frame rnd inp G) =
     (if currentState (input_phase inp G) = PLAYING \<and> missed rnd (input_phase inp G)
      then mistakes G + 1 else mistakes G) \<and>
   mistakes G \<le> mistakes (frame rnd inp G) \<and>
   (mistakes G \<noteq> MAX_MISTAKES \<and> mistakes (frame rnd inp G) = MAX_MISTAKES \<longrightarrow>
      currentState G = PLAYING \<and> currentState (frame rnd inp G) = GAME_OVER \<and>
      \<not> music (frame rnd inp G)) \<and>
   (currentState g = PLAYING \<and> mistakes g = 4 \<and> y (block g) > SCREEN_HEIGHT \<longrightarrow>
      mistakes (miss_check rnd g) = 5 \<and> currentState (miss_check rnd g) = GAME_OVER \<and>
      \<not> music (miss_check rnd g))"
proof -
  have inv: "loop_inv G"
    unfolding G_def by (rule reach_inv)
  have inv': "loop_inv (frame rnd inp G)"
    using inv by (rule frame_inv)
  have bounds: "0 \<le> mistakes G \<and> mistakes G \<le> MAX_MISTAKES"
    using inv by (simp add: loop_inv_def shape_inv_def)
  have step: "mistakes (frame rnd inp G) =
     (if currentState (input_phase inp G) = PLAYING \<and> missed rnd (input_phase inp G)
      then mistakes G + 1 else mistakes G)"
    using inv by (rule frame_mistakes)
  have mono: "mistakes G \<le> mistakes (frame rnd inp G)"
    using step by simp
  have trans: "currentState G = PLAYING \<and> currentState (frame rnd inp G) = GAME_OVER \<and>
      \<not> music (frame rnd inp G)"
    if a: "mistakes G \<noteq> MAX_MISTAKES" and b: "mistakes (frame rnd inp G) = MAX_MISTAKES"
  proof -
    have over: "currentState (frame rnd inp G) = GAME_OVER"
      using inv' b by (simp add: loop_inv_def shape_inv_def)
    have four: "mistakes G = 4" and playing: "currentState (input_phase inp G) = PLAYING"
      using a b step by (simp_all split: if_splits)
    have "currentState G \<noteq> GAME_OVER" "currentState G \<noteq> MENU"
      using inv a four by (auto simp: loop_inv_def shape_inv_def)
    then have "currentState G = PLAYING"
      by (cases "currentState G") simp_all
    moreover have "\<not> music (frame rnd inp G)"
      using playing over game_logic_over_music [of "input_phase inp G" rnd]
      by (simp add: frame_def)
    ultimately show ?thesis using over by simp
  qed
  have scen: "mistakes (miss_check rnd g) = 5 \<and> currentState (miss_check rnd g) = GAME_OVER \<and>
      \<not> music (miss_check rnd g)"
    if "currentState g = PLAYING \<and> mistakes g = 4 \<and> y (block g) > SCREEN_HEIGHT"
    using that by (simp add: miss_check_def Let_def s32_id)
  show ?thesis
    using bounds step mono trans scen by blast
qed

text \<open>
  After four misses and with the block at 600, one more frame makes the
  counter five and ends the game; the state in which that frame enters the
  miss check has the block at 605.
\<close>

theorem mistakes_counter_witness:
  "mistakes last_chance = 4 \<and> currentState last_chance = PLAYING \<and>
   mistakes (frame (\<lambda>_. 0) idle last_chance) = 5 \<and>
   currentState (frame (\<lambda>_. 0) idle last_chance) = GAME_OVER \<and>
   \<not> music (frame (\<lambda>_. 0) idle last_chance) \<and>
   y (block (move_block (clamp_paddle (input_phase idle last_chance)))) = 605 \<and>
   mistakes (miss_check (\<lambda>_. 0) (move_block (clamp_paddle (input_phase idle last_chance)))) = 5 \<and>
   currentState (miss_check (\<lambda>_. 0) (move_block (clamp_paddle (input_phase idle last_chance)))) =
     GAME_OVER"
proof -
  let ?m = "move_block (clamp_paddle (input_phase idle last_chance))"
  have a: "mistakes last_chance = 4" by code_simp
  have b: "mistakes (frame (\<lambda>_. 0) idle last_chance) = 5" by code_simp
  have c: "currentState ?m = PLAYING" by code_simp
  have d: "mistakes ?m = 4" by code_simp
  have e: "y (block ?m) = 605" by code_simp
  show ?thesis
    using a b c d e
      mistakes_counter [where rnd = "\<lambda>_. 0" and inps = "click # replicate 603 idle"
        and inp = idle and g = ?m]
    by (simp add: last_chance_def)
qed

subsection \<open>Paddle\<close>

text \<open>
  C3: in every frame begun at a loop head reached from the initial state,
  whatever events and keys the frame brings, the paddle's x after the clamping
  step is between 0 and \<open>SCREEN_WIDTH - PADDLE_WIDTH\<close> (700). When the game is
  being played the rest of the frame leaves the paddle as the clamp left it, so
  the bound holds at the end of the frame too.
\<close>

theorem paddle_clamped:
  fixes rnd inps inp
  defines "G \<equiv> run rnd inps (init_game rnd)"
  shows
  "0 \<le> x (player (clamp_paddle (input_phase inp G))) \<and>
   x (player (clamp_paddle (input_phase inp G))) \<le> SCREEN_WIDTH - PADDLE_WIDTH \<and>
   (currentState (input_phase inp G) = PLAYING \<longrightarrow>
      player (frame rnd inp G) = player (clamp_paddle (input_phase inp G))) \<and>
   0 \<le> x (player (frame rnd inp G)) \<and>
   x (player (frame rnd inp G)) \<le> SCREEN_WIDTH - PADDLE_WIDTH"
proof -
  have inv: "loop_inv G"
    unfolding G_def by (rule reach_inv)
  then have "shape_inv (input_phase inp G)"
    by (simp add: loop_inv_def input_phase_shape)
  then have "w (player (input_phase inp G)) = PADDLE_WIDTH"
    by (simp add: shape_inv_def)
  then have clamp: "0 \<le> x (player (clamp_paddle (input_phase inp G))) \<and>
      x (player (clamp_paddle (input_phase inp G))) \<le> SCREEN_WIDTH - PADDLE_WIDTH"
    by (rule clamp_paddle_x)
  have same: "player (frame rnd inp G) = player (clamp_paddle (input_phase inp G))"
    if "currentState (input_phase inp G) = PLAYING"
    using that
    by (simp add: frame_def game_logic_def miss_check_def collision_check_def move_block_def Let_def)
  have "loop_inv (frame rnd inp G)"
    using inv by (rule frame_inv)
  then have "0 \<le> x (player (frame rnd inp G)) \<and>
      x (player (frame rnd inp G)) \<le> SCREEN_WIDTH - PADDLE_WIDTH"
    by (simp add: loop_inv_def)
  with clamp same show ?thesis by blast
qed

text \<open>
  The pointer at the least 32-bit position with the left arrow held: the two
  subtractions wrap around to 2147483588, and the clamp brings the paddle to 700.
\<close>

theorem paddle_clamped_witness:
  "currentState (input_phase far_left (run (\<lambda>_. 0) [click] (init_game (\<lambda>_. 0)))) = PLAYING \<and>
   x (player (input_phase far_left (run (\<lambda>_. 0) [click] (init_game (\<lambda>_. 0))))) = 2147483588 \<and>
   x (player (frame (\<lambda>_. 0) far_left (run (\<lambda>_. 0) [click] (init_game (\<lambda>_. 0))))) = 700"
proof -
  let ?G = "run (\<lambda>_. 0) [click] (init_game (\<lambda>_. 0))"
  have a: "currentState (input_phase far_left ?G) = PLAYING" by code_simp
  have b: "x (player (input_phase far_left ?G)) = 2147483588" by code_simp
  have c: "x (player (clamp_paddle (input_phase far_left ?G))) = 700" by code_simp
  show ?thesis
    using a b c
      paddle_clamped [where rnd = "\<lambda>_. 0" and inps = "[click]" and inp = far_left]
    by simp
qed

subsection \<open>Catch\<close>

text \<open>
  C4: when the game logic runs (the state is \<open>PLAYING\<close>) and the paddle and
  the moved block intersect, the logic leaves the block at y = 0 with x the next
  value of \<^verbatim>\<open>rand()\<close> modulo 770, which is in [0, 770), the mistake counter as it
  was, and the state \<open>PLAYING\<close>.
\<close>

theorem catch_resets_block:
  "currentState g = PLAYING \<Longrightarrow> caught g \<Longrightarrow>
   y (block (game_logic rnd g)) = 0 \<and>
   x (block (game_logic rnd g)) = int (rnd (rand_calls g)) mod (SCREEN_WIDTH - BLOCK_SIZE) \<and>
   0 \<le> x (block (game_logic rnd g)) \<and>
   x (block (game_logic rnd g)) < SCREEN_WIDTH - BLOCK_SIZE \<and>
   mistakes (game_logic rnd g) = mistakes g \<and>
   currentState (game_logic rnd g) = PLAYING"
  by (simp add: game_logic_def caught_def miss_check_def collision_check_def)
     (simp add: move_block_def clamp_paddle_def Let_def)

text \<open>
  The scenario of the spec, reached by play: the paddle at (350, 570) and the
  block moved to (380, 565) intersect; the block restarts at y = 0 with
  x = 1000 mod 770 = 230, and no mistake is counted.
\<close>

theorem catch_resets_block_witness:
  "player (move_block (clamp_paddle (input_phase (mouse_to 400) before_catch))) =
     \<lparr>x = 350, y = 570, w = 100, h = 20\<rparr> \<and>
   block (move_block (clamp_paddle (input_phase (mouse_to 400) before_catch))) =
     \<lparr>x = 380, y = 565, w = 30, h = 30\<rparr> \<and>
   caught (input_phase (mouse_to 400) before_catch) \<and>
   block (frame rnd_380 (mouse_to 400) before_catch) = \<lparr>x = 230, y = 0, w = 30, h = 30\<rparr> \<and>
   mistakes (frame rnd_380 (mouse_to 400) before_catch) = 0"
proof -
  let ?g = "input_phase (mouse_to 400) before_catch"
  have a: "currentState ?g = PLAYING" by code_simp
  have b: "caught ?g" by code_simp
  have c: "player (move_block (clamp_paddle ?g)) = \<lparr>x = 350, y = 570, w = 100, h = 20\<rparr>"
    by code_simp
  have d: "block (move_block (clamp_paddle ?g)) = \<lparr>x = 380, y = 565, w = 30, h = 30\<rparr>"
    by code_simp
  have e: "block (game_logic rnd_380 ?g) = \<lparr>x = 230, y = 0, w = 30, h = 30\<rparr>" by code_simp
  have f: "mistakes ?g = 0" by code_simp
  show ?thesis
    using catch_resets_block [OF a b, where rnd = rnd_380] b c d e f
    by (simp add: frame_def)
qed

subsection \<open>Touching edges\<close>

text \<open>
  C5, as the spec states it, fails: the block at (380, 540), whose bottom edge
  540 + 30 is the paddle's top edge 570 and whose horizontal range overlaps the
  paddle's, is reported as not intersecting the paddle at (350, 570).
\<close>

theorem touching_edge_counterexample:
  "y \<lparr>x = 380, y = 540, w = 30, h = 30\<rparr> + h \<lparr>x = 380, y = 540, w = 30, h = 30\<rparr> =
     y \<lparr>x = 350, y = 570, w = 100, h = 20\<rparr> \<and>
   x \<lparr>x = 350, y = 570, w = 100, h = 20\<rparr> <
     x \<lparr>x = 380, y = 540, w = 30, h = 30\<rparr> + w \<lparr>x = 380, y = 540, w = 30, h = 30\<rparr> \<and>
   x \<lparr>x = 380, y = 540, w = 30, h = 30\<rparr> <
     x \<lparr>x = 350, y = 570, w = 100, h = 20\<rparr> + w \<lparr>x = 350, y = 570, w = 100, h = 20\<rparr> \<and>
   \<not> SDL_HasIntersection \<lparr>x = 350, y = 570, w = 100, h = 20\<rparr> \<lparr>x = 380, y = 540, w = 30, h = 30\<rparr>"
  by (simp add: SDL_HasIntersection_def SDL_RectEmpty_def)

text \<open>
  C5, amended: touching edges do not count as intersecting. Two rectangles of
  which one ends, on either axis, exactly where the other begins are reported
  as not intersecting.
\<close>

theorem touching_edges_do_not_intersect:
  "x r1 + w r1 = x r2 \<or> x r2 + w r2 = x r1 \<or> y r1 + h r1 = y r2 \<or> y r2 + h r2 = y r1 \<Longrightarrow>
   \<not> SDL_HasIntersection r1 r2"
  by (auto simp: SDL_HasIntersection_def SDL_RectEmpty_def Let_def)

text \<open>The block resting on the paddle's top edge, and the block beside the paddle's right edge.\<close>

theorem touching_edges_do_not_intersect_witness:
  "\<not> SDL_HasIntersection \<lparr>x = 350, y = 570, w = 100, h = 20\<rparr> \<lparr>x = 380, y = 540, w = 30, h = 30\<rparr> \<and>
   \<not> SDL_HasIntersection \<lparr>x = 350, y = 570, w = 100, h = 20\<rparr> \<lparr>x = 450, y = 565, w = 30, h = 30\<rparr>"
  using touching_edges_do_not_intersect
      [where ?r1.0 = "\<lparr>x = 350, y = 570, w = 100, h = 20\<rparr>"
         and ?r2.0 = "\<lparr>x = 380, y = 540, w = 30, h = 30\<rparr>"]
    touching_edges_do_not_intersect
      [where ?r1.0 = "\<lparr>x = 350, y = 570, w = 100, h = 20\<rparr>"
         and ?r2.0 = "\<lparr>x = 450, y = 565, w = 30, h = 30\<rparr>"]
  by simp

subsection \<open>Menu\<close>

text \<open>
  C6: the play button is the rectangle x = 275, y = 250, w = 250, h = 100. In
  the \<open>MENU\<close> state a pointer-down event makes the state \<open>PLAYING\<close> exactly
  when the pointer position is inside it (275 \<le> x < 525 and 250 \<le> y < 350);
  it then also starts the music and changes nothing else, and a pointer-down
  outside leaves every variable as it was.
\<close>

theorem menu_click:
  "currentState g = MENU \<Longrightarrow>
   playButtonRect = \<lparr>x = 275, y = 250, w = 250, h = 100\<rparr> \<and>
   (SDL_PointInRect (mx, my) playButtonRect \<longleftrightarrow>
      275 \<le> mx \<and> mx < 525 \<and> 250 \<le> my \<and> my < 350) \<and>
   (currentState (handle_event (SDL_MOUSEBUTTONDOWN mx my) g) = PLAYING \<longleftrightarrow>
      SDL_PointInRect (mx, my) playButtonRect) \<and>
   handle_event (SDL_MOUSEBUTTONDOWN mx my) g =
     (if SDL_PointInRect (mx, my) playButtonRect
      then g\<lparr>currentState := PLAYING, music := True\<rparr> else g)"
  by (auto simp: playButtonRect_def SDL_PointInRect_def signed_divide_int_def)

text \<open>From the initial state: a click at (500, 500) changes nothing, one at (400, 300) starts the game and the music.\<close>

theorem menu_click_witness:
  "handle_event (SDL_MOUSEBUTTONDOWN 500 500) (init_game (\<lambda>_. 0)) = init_game (\<lambda>_. 0) \<and>
   currentState (handle_event (SDL_MOUSEBUTTONDOWN 400 300) (init_game (\<lambda>_. 0))) = PLAYING \<and>
   music (handle_event (SDL_MOUSEBUTTONDOWN 400 300) (init_game (\<lambda>_. 0)))"
proof -
  have m: "currentState (init_game (\<lambda>_. 0)) = MENU"
    by (simp add: init_game_def)
  show ?thesis
    using menu_click [OF m, where mx = 500 and my = 500]
      menu_click [OF m, where mx = 400 and my = 300]
    by simp
qed

subsection \<open>Falling block\<close>

text \<open>
  C7: in a frame begun at a loop head reached from the initial state, if the
  game logic runs (the state is \<open>PLAYING\<close> once the frame's events are
  handled) and the block is neither caught nor missed, the frame adds exactly
  \<open>BLOCK_SPEED\<close> to the block's y and leaves its x. From any state, a frame
  whose game logic finds the state other than \<open>PLAYING\<close> leaves the block
  where it was; so does every frame that ends in \<open>MENU\<close> and every frame
  that starts in \<open>GAME_OVER\<close>.
\<close>

theorem block_falls:
  fixes rnd inps inp g
  defines "G \<equiv> run rnd inps (init_game rnd)"
  shows
  "(currentState (input_phase inp G) = PLAYING \<and> \<not> caught (input_phase inp G) \<and>
    \<not> missed rnd (input_phase inp G) \<longrightarrow>
      y (block (frame rnd inp G)) = y (block G) + BLOCK_SPEED \<and>
      y (block G) < y (block (frame rnd inp G)) \<and>
      x (block (frame rnd inp G)) = x (block G)) \<and>
   (currentState (input_phase inp g) \<noteq> PLAYING \<longrightarrow> block (frame rnd inp g) = block g) \<and>
   (currentState (frame rnd inp g) = MENU \<longrightarrow> block (frame rnd inp g) = block g) \<and>
   (currentState g = GAME_OVER \<longrightarrow> block (frame rnd inp g) = block g)"
proof -
  have inv: "loop_inv G"
    unfolding G_def by (rule reach_inv)
  have fall: "y (block (frame rnd inp G)) = y (block G) + BLOCK_SPEED \<and>
      y (block G) < y (block (frame rnd inp G)) \<and>
      x (block (frame rnd inp G)) = x (block G)"
    if p: "currentState (input_phase inp G) = PLAYING"
      and c: "\<not> caught (input_phase inp G)" and m: "\<not> missed rnd (input_phase inp G)"
  proof -
    let ?g = "input_phase inp G"
    let ?m = "move_block (clamp_paddle ?g)"
    have blk: "block ?g = block G"
      by (simp add: input_phase_keeps)
    have "0 \<le> y (block G)" "y (block G) \<le> SCREEN_HEIGHT"
      using inv by (simp_all add: loop_inv_def shape_inv_def)
    then have moved: "y (block ?m) = y (block G) + BLOCK_SPEED" "x (block ?m) = x (block G)"
      using blk by (simp_all add: move_block_def clamp_paddle_def Let_def s32_id)
    have k: "collision_check rnd ?m = ?m"
      using c by (rule not_caught_keeps)
    have "miss_check rnd ?m = ?m"
      using m k by (simp add: missed_def miss_check_def)
    then have "frame rnd inp G = ?m"
      using p k by (simp add: frame_def game_logic_def)
    then show ?thesis using moved by simp
  qed
  have idle: "block (frame rnd inp g) = block g" if "currentState (input_phase inp g) \<noteq> PLAYING"
    using that by (rule frame_idle_block)
  have menu: "block (frame rnd inp g) = block g" if a: "currentState (frame rnd inp g) = MENU"
  proof -
    have "currentState (input_phase inp g) = MENU"
      using a game_logic_not_menu [of "input_phase inp g" rnd] by (auto simp: frame_def)
    then show ?thesis by (simp add: frame_idle_block)
  qed
  have over: "block (frame rnd inp g) = block g" if "currentState g = GAME_OVER"
    using that input_phase_over [of g inp] by (simp add: frame_idle_block)
  show ?thesis
    using fall idle menu over by blast
qed

text \<open>
  One frame after the start the block goes from 5 to 10; an idle frame in the
  menu, and one after the game is over, leave the block alone.
\<close>

theorem block_falls_witness:
  "y (block (run (\<lambda>_. 0) [click] (init_game (\<lambda>_. 0)))) = 5 \<and>
   y (block (frame (\<lambda>_. 0) idle (run (\<lambda>_. 0) [click] (init_game (\<lambda>_. 0))))) = 10 \<and>
   currentState (frame (\<lambda>_. 0) idle (init_game (\<lambda>_. 0))) = MENU \<and>
   block (frame (\<lambda>_. 0) idle (init_game (\<lambda>_. 0))) = block (init_game (\<lambda>_. 0)) \<and>
   currentState game_lost = GAME_OVER \<and>
   block (frame (\<lambda>_. 0) idle game_lost) = block game_lost"
proof -
  let ?G = "run (\<lambda>_. 0) [click] (init_game (\<lambda>_. 0))"
  let ?I = "init_game (\<lambda>_. 0)"
  have a: "currentState (input_phase idle ?G) = PLAYING" by code_simp
  have b: "\<not> caught (input_phase idle ?G)" by code_simp
  have c: "\<not> missed (\<lambda>_. 0) (input_phase idle ?G)" by code_simp
  have d: "y (block ?G) = 5" by code_simp
  have e: "currentState (frame (\<lambda>_. 0) idle ?I) = MENU" by code_simp
  have f: "currentState game_lost = GAME_OVER" by code_simp
  show ?thesis
    using a b c d e f
      block_falls [where rnd = "\<lambda>_. 0" and inps = "[click]" and inp = idle and g = ?I]
      block_falls [where rnd = "\<lambda>_. 0" and inps = "[click]" and inp = idle and g = game_lost]
    by simp
qed

subsection \<open>Leaving the loop\<close>

text \<open>
  C8: from any state, a frame whose event queue holds a window-close event or
  an Escape key-down ends with \<open>isRunning\<close> false, whatever else the queue
  holds, and no confirmation is asked: the loop executes no further iteration,
  whatever inputs would follow.
\<close>

theorem quit_ends_loop:
  "SDL_QUIT \<in> set (events inp) \<or> SDL_KEYDOWN SDLK_ESCAPE \<in> set (events inp) \<Longrightarrow>
   \<not> isRunning (frame rnd inp g) \<and>
   run rnd later (frame rnd inp g) = frame rnd inp g \<and>
   run rnd (inp # later) g = (if isRunning g then frame rnd inp g else g)"
proof -
  assume "SDL_QUIT \<in> set (events inp) \<or> SDL_KEYDOWN SDLK_ESCAPE \<in> set (events inp)"
  then have "\<not> isRunning (poll_events (events inp) g)"
    by (rule poll_events_quit)
  then have stopped: "\<not> isRunning (frame rnd inp g)"
    by (simp add: frame_isRunning)
  then have "run rnd later (frame rnd inp g) = frame rnd inp g"
    by (rule run_stopped)
  with stopped show ?thesis by simp
qed

text \<open>
  A close request in the menu, with a click queued behind it and two more
  frames of input waiting; Escape while playing; Escape after the game is over.
\<close>

theorem quit_ends_loop_witness:
  "\<not> isRunning (frame (\<lambda>_. 0) quit_now (init_game (\<lambda>_. 0))) \<and>
   run (\<lambda>_. 0) [quit_now, idle, click] (init_game (\<lambda>_. 0)) =
     frame (\<lambda>_. 0) quit_now (init_game (\<lambda>_. 0)) \<and>
   \<not> isRunning (frame (\<lambda>_. 0) escape_now (run (\<lambda>_. 0) [click] (init_game (\<lambda>_. 0)))) \<and>
   \<not> isRunning (frame (\<lambda>_. 0) escape_now game_lost)"
proof -
  have q: "SDL_QUIT \<in> set (events quit_now) \<or> SDL_KEYDOWN SDLK_ESCAPE \<in> set (events quit_now)"
    by (simp add: quit_now_def)
  have e: "SDL_QUIT \<in> set (events escape_now) \<or> SDL_KEYDOWN SDLK_ESCAPE \<in> set (events escape_now)"
    by (simp add: escape_now_def)
  have r: "isRunning (init_game (\<lambda>_. 0))"
    by (simp add: init_game_def)
  show ?thesis
    using r
      quit_ends_loop [OF q, where rnd = "\<lambda>_. 0" and g = "init_game (\<lambda>_. 0)"
        and later = "[idle, click]"]
      quit_ends_loop [OF e, where rnd = "\<lambda>_. 0"
        and g = "run (\<lambda>_. 0) [click] (init_game (\<lambda>_. 0))"]
      quit_ends_loop [OF e, where rnd = "\<lambda>_. 0" and g = game_lost]
    by simp
qed

subsection \<open>Catch before miss\<close>

text \<open>
  C9: in one pass of the game logic the block is never both caught and
  missed. When it is caught, the collision check has put it back at y = 0
  before the miss check reads it: the mistake counter is unchanged and the only
  line written is the catch. When it is missed, the lines written are the miss,
  followed at most by the game-over line; no catch is written.
\<close>

theorem catch_excludes_miss:
  "\<not> (caught g \<and> missed rnd g) \<and>
   (currentState g = PLAYING \<and> caught g \<longrightarrow>
      mistakes (game_logic rnd g) = mistakes g \<and>
      y (block (game_logic rnd g)) = 0 \<and>
      console (game_logic rnd g) = console g @ [Caught_it]) \<and>
   (currentState g = PLAYING \<and> missed rnd g \<longrightarrow>
      console (game_logic rnd g) = console g @ [Missed (s32 (mistakes g + 1))] \<or>
      console (game_logic rnd g) = console g @ [Missed (s32 (mistakes g + 1)), GAME_OVER_line])"
proof -
  have excl: "\<not> (caught g \<and> missed rnd g)"
    using caught_resets [of g rnd] by (auto simp: missed_def)
  have catch: "mistakes (game_logic rnd g) = mistakes g \<and> y (block (game_logic rnd g)) = 0 \<and>
      console (game_logic rnd g) = console g @ [Caught_it]"
    if "currentState g = PLAYING \<and> caught g"
    using that
    by (simp add: game_logic_def caught_def miss_check_def collision_check_def)
       (simp add: move_block_def clamp_paddle_def Let_def)
  have miss: "console (game_logic rnd g) = console g @ [Missed (s32 (mistakes g + 1))] \<or>
      console (game_logic rnd g) = console g @ [Missed (s32 (mistakes g + 1)), GAME_OVER_line]"
    if a: "currentState g = PLAYING \<and> missed rnd g"
  proof -
    let ?m = "move_block (clamp_paddle g)"
    from a excl have "\<not> caught g" by blast
    then have k: "collision_check rnd ?m = ?m"
      by (rule not_caught_keeps)
    have "y (block ?m) > SCREEN_HEIGHT"
      using a k by (simp add: missed_def)
    then show ?thesis
      using a k
      by (simp add: game_logic_def miss_check_def Let_def)
         (simp add: move_block_def clamp_paddle_def Let_def)
  qed
  show ?thesis using excl catch miss by blast
qed

text \<open>The frame of the catch writes the catch alone; the frame of the first miss writes the miss alone.\<close>

theorem catch_excludes_miss_witness:
  "caught (input_phase (mouse_to 400) before_catch) \<and>
   \<not> missed rnd_380 (input_phase (mouse_to 400) before_catch) \<and>
   mistakes (frame rnd_380 (mouse_to 400) before_catch) = mistakes before_catch \<and>
   console (frame rnd_380 (mouse_to 400) before_catch) = [Caught_it] \<and>
   missed (\<lambda>_. 0) (input_phase idle before_miss) \<and>
   \<not> caught (input_phase idle before_miss) \<and>
   console (frame (\<lambda>_. 0) idle before_miss) = [Missed 1]"
proof -
  let ?c = "input_phase (mouse_to 400) before_catch"
  let ?m = "input_phase idle before_miss"
  have a: "currentState ?c = PLAYING" by code_simp
  have b: "caught ?c" by code_simp
  have c: "mistakes ?c = mistakes before_catch" by code_simp
  have d: "console ?c = []" by code_simp
  have e: "currentState ?m = PLAYING" by code_simp
  have f: "missed (\<lambda>_. 0) ?m" by code_simp
  have g: "console ?m = []" by code_simp
  have h: "mistakes ?m = 0" by code_simp
  have j: "console (game_logic (\<lambda>_. 0) ?m) \<noteq> [Missed 1, GAME_OVER_line]" by code_simp
  show ?thesis
    using a b c d e f g h j
      catch_excludes_miss [where g = ?c and rnd = rnd_380]
      catch_excludes_miss [where g = ?m and rnd = "\<lambda>_. 0"]
    by (simp add: frame_def s32_id)
qed

subsection \<open>Block position\<close>

text \<open>
  C10: at every loop head reached from the initial state the block's x is in
  [0, 770) and its y is a multiple of \<open>BLOCK_SPEED\<close> between 0 and 600. The
  move of the next frame adds \<open>BLOCK_SPEED\<close>, which keeps y a multiple of 5;
  so whenever the miss check fires, the block is at 605 and was at 600 when the
  frame began: the check never fires at 601.
\<close>

theorem block_on_grid:
  fixes rnd inps inp
  defines "G \<equiv> run rnd inps (init_game rnd)"
  shows
  "0 \<le> x (block G) \<and> x (block G) < SCREEN_WIDTH - BLOCK_SIZE \<and>
   0 \<le> y (block G) \<and> y (block G) \<le> SCREEN_HEIGHT \<and> y (block G) mod BLOCK_SPEED = 0 \<and>
   y (block (move_block (clamp_paddle (input_phase inp G)))) = y (block G) + BLOCK_SPEED \<and>
   y (block (move_block (clamp_paddle (input_phase inp G)))) mod BLOCK_SPEED = 0 \<and>
   (missed rnd (input_phase inp G) \<longrightarrow>
      y (block (collision_check rnd (move_block (clamp_paddle (input_phase inp G))))) = 605 \<and>
      y (block G) = SCREEN_HEIGHT)"
proof -
  let ?m = "move_block (clamp_paddle (input_phase inp G))"
  have inv: "loop_inv G"
    unfolding G_def by (rule reach_inv)
  then have head: "0 \<le> x (block G) \<and> x (block G) < SCREEN_WIDTH - BLOCK_SIZE \<and>
      0 \<le> y (block G) \<and> y (block G) \<le> SCREEN_HEIGHT \<and> y (block G) mod BLOCK_SPEED = 0"
    by (simp add: loop_inv_def shape_inv_def)
  have "block (input_phase inp G) = block G"
    by (simp add: input_phase_keeps)
  then have moved: "y (block ?m) = y (block G) + BLOCK_SPEED"
    using head by (simp add: move_block_def clamp_paddle_def Let_def s32_id)
  have grid: "y (block ?m) mod BLOCK_SPEED = 0"
    using moved head by simp
  have fire: "y (block (collision_check rnd ?m)) = 605 \<and> y (block G) = SCREEN_HEIGHT"
    if a: "missed rnd (input_phase inp G)"
  proof -
    have "\<not> caught (input_phase inp G)"
      using a caught_resets [of "input_phase inp G" rnd] by (auto simp: missed_def)
    then have k: "collision_check rnd ?m = ?m"
      by (rule not_caught_keeps)
    then have "600 < y (block G) + 5"
      using a moved by (simp add: missed_def)
    moreover have "y (block G) \<le> 600" "y (block G) mod 5 = 0"
      using head by simp_all
    ultimately have "y (block G) = 600"
      by presburger
    then show ?thesis using k moved by simp
  qed
  show ?thesis
    using head moved grid fire by blast
qed

text \<open>The first miss of a game left alone: the block at 600, moved to 605, missed.\<close>

theorem block_on_grid_witness:
  "y (block before_miss) = 600 \<and>
   missed (\<lambda>_. 0) (input_phase idle before_miss) \<and>
   y (block (collision_check (\<lambda>_. 0) (move_block (clamp_paddle (input_phase idle before_miss))))) = 605"
proof -
  have a: "missed (\<lambda>_. 0) (input_phase idle before_miss)" by code_simp
  show ?thesis
    using a
      block_on_grid [where rnd = "\<lambda>_. 0" and inps = "click # replicate 119 idle" and inp = idle]
    by (simp add: before_miss_def)
qed

end
